theory Spec2Isabelle
  imports Complex_Main "HOL-Library.Sublist"
begin

section \<open>Strings\<close>

text \<open>
  A Python \<open>str\<close> is a sequence of code points. It is modelled as a \<^typ>\<open>string\<close> whose
  characters stand for the code points below 256, so that \<^const>\<open>length\<close> is Python's
  \<open>len\<close> and \<^const>\<open>take\<close> is a slice \<open>s[:n]\<close>. The character classes below are the ones
  Python 3 uses on that range: \<open>str.isspace\<close> (which is also the class \<open>\s\<close> of \<open>re\<close> on
  \<open>str\<close> patterns), the class \<open>\w\<close>, and \<open>str.lower\<close>.
\<close>

definition isspace :: "char \<Rightarrow> bool" where
  "isspace c = (let n = (of_char c :: nat) in
     (9 \<le> n \<and> n \<le> 13) \<or> (28 \<le> n \<and> n \<le> 32) \<or> n = 133 \<or> n = 160)"

definition isword :: "char \<Rightarrow> bool" where
  "isword c = (let n = (of_char c :: nat) in
     (48 \<le> n \<and> n \<le> 57) \<or> (65 \<le> n \<and> n \<le> 90) \<or> n = 95 \<or> (97 \<le> n \<and> n \<le> 122) \<or>
     n = 170 \<or> n = 178 \<or> n = 179 \<or> n = 181 \<or> n = 185 \<or> n = 186 \<or>
     (188 \<le> n \<and> n \<le> 190) \<or> (192 \<le> n \<and> n \<le> 214) \<or> (216 \<le> n \<and> n \<le> 246) \<or> 248 \<le> n)"

definition lower_char :: "char \<Rightarrow> char" where
  "lower_char c = (let n = (of_char c :: nat) in
     if (65 \<le> n \<and> n \<le> 90) \<or> (192 \<le> n \<and> n \<le> 214) \<or> (216 \<le> n \<and> n \<le> 222)
     then char_of (n + 32) else c)"

definition lower :: "string \<Rightarrow> string" where
  "lower s = map lower_char s"

text \<open>\<open>s.strip()\<close>: leading and trailing whitespace removed.\<close>

definition strip :: "string \<Rightarrow> string" where
  "strip s = rev (dropWhile isspace (rev (dropWhile isspace s)))"

text \<open>\<open>re.sub(r"\s+", " ", s)\<close>: every maximal run of whitespace becomes one space.\<close>

function re_sub_ws :: "string \<Rightarrow> string" where
  "re_sub_ws [] = []"
| "re_sub_ws (c # cs) =
     (if isspace c then CHR '' '' # re_sub_ws (dropWhile isspace cs) else c # re_sub_ws cs)"
  by pat_completeness auto
termination
  by (relation "measure length") (auto simp: length_dropWhile_le less_Suc_eq_le)

text \<open>\<open>sep.join(xs)\<close>.\<close>

fun join :: "string \<Rightarrow> string list \<Rightarrow> string" where
  "join sep [] = []"
| "join sep [x] = x"
| "join sep (x # y # ys) = x @ sep @ join sep (y # ys)"

text \<open>\<open>k in t\<close> on strings is the contiguous-substring test \<^const>\<open>sublist\<close>;
  \<open>any(k in t for k in ks)\<close> is \<open>any_in ks t\<close>.\<close>

definition any_in :: "string list \<Rightarrow> string \<Rightarrow> bool" where
  "any_in ks t = list_ex (\<lambda>k. sublist k t) ks"

section \<open>Keyword tables\<close>

definition POS_TARIFF_HINTS :: "string list" where
  "POS_TARIFF_HINTS = [''protect'', ''protection'', ''protecting'', ''fair trade'',
     ''bring back jobs'', ''onshore'', ''reshore'', ''domestic'', ''manufacturing'',
     ''counter china'', ''stand up to china'', ''level playing field'', ''good'', ''win'',
     ''works'']"

definition NEG_TARIFF_HINTS :: "string list" where
  "NEG_TARIFF_HINTS = [''inflation'', ''prices'', ''price hike'', ''cost'', ''costs'',
     ''tax on consumers'', ''trade war'', ''retaliation'', ''tariff war'', ''smoot'',
     ''hawley'', ''inefficient'', ''jobs lost'', ''hurts'', ''burden'', ''bad'', ''stupid'']"

text \<open>\<open>THEMES\<close> is a dict; its iteration order is the order of declaration, so it is an
  association list.\<close>

definition THEMES :: "(string \<times> string list) list" where
  "THEMES = [
     (''inflation/prices'', [''inflation'', ''prices'', ''price'', ''expensive'', ''cost'', ''costs'']),
     (''china/geopolitics'', [''china'', ''beijing'', ''ccp'', ''xi'', ''chinese'']),
     (''jobs/manufacturing'', [''jobs'', ''manufacturing'', ''factory'', ''factories'', ''onshore'',
        ''reshore'', ''made in'']),
     (''trade war/retaliation'', [''trade war'', ''tariff war'', ''retaliation'', ''retaliate'',
        ''tit for tat'']),
     (''farmers/agriculture'', [''farmers'', ''agriculture'', ''soy'', ''corn'', ''wheat'', ''ranchers'']),
     (''consumers/smb'', [''consumers'', ''consumer'', ''small business'', ''smb'', ''main street'']),
     (''national security'', [''national security'', ''security'', ''strategic'', ''defense'',
        ''supply chain''])]"

section \<open>Stance classifier\<close>

text \<open>
  The three stance strings \<open>"positive"\<close>, \<open>"negative"\<close>, \<open>"neutral"\<close> are an enumeration;
  \<open>stance_str\<close> gives the string the source returns.

  \<open>classify_stance text sia\<close>: the analyser \<open>sia\<close> is a library object; all the function
  uses of it is the compound score \<open>sia.polarity_scores(text)["compound"]\<close>, so \<open>sia\<close> is that
  function. Scores are Python floats; they are modelled as reals, that is, the arithmetic
  is exact.
\<close>

datatype stance = Positive | Negative | Neutral

fun stance_str :: "stance \<Rightarrow> string" where
  "stance_str Positive = ''positive''"
| "stance_str Negative = ''negative''"
| "stance_str Neutral = ''neutral''"

definition classify_stance :: "string \<Rightarrow> (string \<Rightarrow> real) \<Rightarrow> stance" where
  "classify_stance txt sia =
     (let t = lower txt;
          comp = sia txt;
          comp = (if any_in POS_TARIFF_HINTS t then comp + 0.20 else comp);
          comp = (if any_in NEG_TARIFF_HINTS t then comp - 0.20 else comp)
      in if comp \<ge> 0.2 then Positive else if comp \<le> - 0.2 then Negative else Neutral)"

section \<open>Aggregator\<close>

text \<open>The dict \<open>counts\<close> of \<open>main\<close> always has exactly the three stance keys.\<close>

record counts =
  positive :: int
  negative :: int
  neutral :: int

text \<open>\<open>counts[stance] += 1\<close>\<close>

fun bump :: "stance \<Rightarrow> counts \<Rightarrow> counts" where
  "bump Positive c = c\<lparr>positive := positive c + 1\<rparr>"
| "bump Negative c = c\<lparr>negative := negative c + 1\<rparr>"
| "bump Neutral c = c\<lparr>neutral := neutral c + 1\<rparr>"

text \<open>
  Lines 203--206 of \<open>main\<close>. \<open>/\<close> is Python's true division and \<open>math.floor\<close> returns an
  int; the quotient is taken in the reals (exact).
\<close>

definition total_of :: "counts \<Rightarrow> int" where
  "total_of c = max 1 (positive c + negative c + neutral c)"

definition pos_pct :: "counts \<Rightarrow> int" where
  "pos_pct c = \<lfloor>real_of_int (100 * positive c) / real_of_int (total_of c)\<rfloor>"

definition neg_pct :: "counts \<Rightarrow> int" where
  "neg_pct c = \<lfloor>real_of_int (100 * negative c) / real_of_int (total_of c)\<rfloor>"

definition neu_pct :: "counts \<Rightarrow> int" where
  "neu_pct c = 100 - pos_pct c - neg_pct c"

text \<open>Lines 209--210 of \<open>main\<close>.\<close>

definition skew :: "counts \<Rightarrow> string" where
  "skew c =
     (if negative c > max (positive c) (neutral c) then ''negative''
      else if positive c > max (negative c) (neutral c) then ''positive''
      else ''mixed'')"

section \<open>Theme ranker\<close>

text \<open>
  \<open>counts\<close> in \<open>top_themes\<close> is a dict created with the keys of \<open>THEMES\<close> in their order
  and only ever updated at existing keys, so it is an association list in that order.
  \<open>counts[theme] += 1\<close> is \<open>incr theme\<close>; the key is always present (lemma
  \<open>theme_counts_keys\<close>), so the \<open>KeyError\<close> of a missing key cannot occur.
\<close>

definition incr :: "string \<Rightarrow> (string \<times> int) list \<Rightarrow> (string \<times> int) list" where
  "incr theme cs = map (\<lambda>(t, c). if t = theme then (t, c + 1) else (t, c)) cs"

text \<open>The body of the loop over \<open>texts\<close> (lines 57--60).\<close>

definition count_text :: "string \<Rightarrow> (string \<times> int) list \<Rightarrow> (string \<times> int) list" where
  "count_text tx cs =
     (let low = lower tx
      in fold (\<lambda>(theme, keys) cs. if any_in keys low then incr theme cs else cs) THEMES cs)"

definition theme_counts :: "string list \<Rightarrow> (string \<times> int) list" where
  "theme_counts texts = fold count_text texts (map (\<lambda>(k, _). (k, 0)) THEMES)"

text \<open>
  \<open>sorted(xs, key=f, reverse=True)\<close>: Python's sort is stable, and with \<open>reverse=True\<close>
  elements of equal key keep their original order: the list is reversed, sorted stably in
  ascending order, and reversed again.
\<close>

definition sorted_reverse :: "('a \<Rightarrow> int) \<Rightarrow> 'a list \<Rightarrow> 'a list" where
  "sorted_reverse f xs = rev (sort_key f (rev xs))"

text \<open>\<open>counts[t]\<close>. The names that are looked up come from \<open>counts.items()\<close>, so the key
  is present (lemma \<open>theme_counts_entry\<close>) and the \<open>None\<close> branch is never taken.\<close>

definition getitem :: "(string \<times> int) list \<Rightarrow> string \<Rightarrow> int" where
  "getitem cs t = (case map_of cs t of Some c \<Rightarrow> c | None \<Rightarrow> 0)"

text \<open>\<open>xs[:k]\<close> for a Python int \<open>k\<close>: a negative \<open>k\<close> counts from the end.\<close>

definition slice_to :: "int \<Rightarrow> 'a list \<Rightarrow> 'a list" where
  "slice_to k xs = (if k \<ge> 0 then take (nat k) xs else take (length xs - nat (- k)) xs)"

definition ranked_themes :: "string list \<Rightarrow> string list" where
  "ranked_themes texts =
     (let cs = theme_counts texts
      in map fst (filter (\<lambda>(t, _). getitem cs t > 0) (sorted_reverse snd cs)))"

definition top_themes :: "string list \<Rightarrow> int \<Rightarrow> string list" where
  "top_themes texts k =
     (let ranked = ranked_themes texts in if ranked \<noteq> [] then slice_to k ranked else [])"

section \<open>Post extractor\<close>

record Tweet =
  handle :: string
  body :: string

text \<open>
  The page is what the locators of \<open>scrape_tweets\<close> read. Every read of an element can
  raise; a \<open>fault\<close> is such an exception, and each read is recorded with its outcome.
  \<^item> \<open>articles\<close>: the elements of \<open>article:has(div[lang])\<close>, in document order;
  \<^item> \<open>text_nodes\<close>: \<open>inner_text()\<close> of each element of \<open>div[lang]\<close>, in document order.
  For one article:
  \<^item> \<open>chunks\<close>: \<open>art.locator("div[lang]").all_inner_texts()\<close>;
  \<^item> \<open>user_count\<close>, \<open>user_text\<close>: \<open>count()\<close> and \<open>inner_text()\<close> of the first
    \<open>div[data-testid='User-Name']\<close>;
  \<^item> \<open>art_text\<close>: \<open>art.inner_text()\<close>.
\<close>

datatype fault = Fault

record container =
  chunks :: "fault + string list"
  user_count :: "fault + nat"
  user_text :: "fault + string"
  art_text :: "fault + string"

record page =
  articles :: "container list"
  text_nodes :: "(fault + string) list"

text \<open>\<open>re.search(r"@\w{1,15}", s)\<close>: the leftmost \<open>@\<close> that a word character follows, with
  as many word characters as there are, up to 15.\<close>

fun re_search_handle :: "string \<Rightarrow> string option" where
  "re_search_handle [] = None"
| "re_search_handle (c # cs) =
     (if c = CHR ''@'' \<and> takeWhile isword cs \<noteq> []
      then Some (c # take 15 (takeWhile isword cs))
      else re_search_handle cs)"

text \<open>
  The \<open>try\<close> block of lines 130--139, started with \<open>handle = h0\<close>: the value of \<open>handle\<close>
  when the block is left, and the exception that ended it, if any.
\<close>

definition handle_try :: "container \<Rightarrow> string \<Rightarrow> string \<times> fault option" where
  "handle_try art h0 =
     (case user_count art of
        Inl e \<Rightarrow> (h0, Some e)
      | Inr n \<Rightarrow>
          (case (if n > 0
                 then (case user_text art of
                         Inl e \<Rightarrow> Inl e
                       | Inr raw \<Rightarrow>
                           Inr (case re_search_handle (strip raw) of
                                  Some m \<Rightarrow> m | None \<Rightarrow> h0))
                 else Inr h0) of
             Inl e \<Rightarrow> (h0, Some e)
           | Inr h \<Rightarrow>
               if h = ''@unknown''
               then (case art_text art of
                       Inl e \<Rightarrow> (h, Some e)
                     | Inr raw_all \<Rightarrow>
                         (case re_search_handle (strip raw_all) of
                            Some m2 \<Rightarrow> (m2, None) | None \<Rightarrow> (h, None)))
               else (h, None)))"

text \<open>\<open>except Exception: pass\<close>: whatever happened, the loop body goes on with \<open>handle\<close>.\<close>

definition extract_handle :: "container \<Rightarrow> string" where
  "extract_handle art = fst (handle_try art ''@unknown'')"

text \<open>
  One pass of each loop body up to the dedup key: a fault, \<open>continue\<close> (\<open>None\<close>), or the
  candidate post. Lines 121--141 and 111--113.
\<close>

text \<open>Lines 124--125.\<close>

definition container_text :: "string list \<Rightarrow> string" where
  "container_text cs = strip (re_sub_ws (join '' '' (map strip cs)))"

definition structured_candidate :: "container \<Rightarrow> fault + Tweet option" where
  "structured_candidate art =
     (case chunks art of
        Inl e \<Rightarrow> Inl e
      | Inr cs \<Rightarrow>
          if cs = [] then Inr None
          else let t = container_text cs
               in if length t < 20 then Inr None
                  else Inr (Some \<lparr>handle = extract_handle art, body = t\<rparr>))"

definition fallback_candidate :: "fault + string \<Rightarrow> fault + Tweet option" where
  "fallback_candidate node =
     (case node of
        Inl e \<Rightarrow> Inl e
      | Inr raw \<Rightarrow>
          let t = re_sub_ws (strip raw)
          in if length t < 20 then Inr None
             else Inr (Some \<lparr>handle = ''@unknown'', body = t\<rparr>))"

text \<open>The keys of lines 143 and 114.\<close>

definition structured_key :: "Tweet \<Rightarrow> string" where
  "structured_key tw = handle tw @ ''::'' @ take 80 (body tw)"

definition fallback_key :: "Tweet \<Rightarrow> string" where
  "fallback_key tw = take 80 (body tw)"

text \<open>
  The state of both loops is \<open>(tweets, seen)\<close>. \<open>keep\<close> is lines 144--146 (and 115--117);
  \<open>loop_body\<close> is one iteration, \<open>for_each\<close> the \<open>for\<close> loop: an exception leaves it.
\<close>

definition keep :: "(Tweet \<Rightarrow> string) \<Rightarrow> Tweet \<Rightarrow> Tweet list \<times> string set \<Rightarrow> Tweet list \<times> string set" where
  "keep key tw st =
     (if key tw \<in> snd st then st else (fst st @ [tw], insert (key tw) (snd st)))"

definition loop_body ::
  "('a \<Rightarrow> fault + Tweet option) \<Rightarrow> (Tweet \<Rightarrow> string) \<Rightarrow> 'a \<Rightarrow> Tweet list \<times> string set
     \<Rightarrow> fault + Tweet list \<times> string set" where
  "loop_body cand key x st =
     (case cand x of
        Inl e \<Rightarrow> Inl e
      | Inr None \<Rightarrow> Inr st
      | Inr (Some tw) \<Rightarrow> Inr (keep key tw st))"

fun for_each :: "('a \<Rightarrow> 's \<Rightarrow> fault + 's) \<Rightarrow> 'a list \<Rightarrow> 's \<Rightarrow> fault + 's" where
  "for_each f [] st = Inr st"
| "for_each f (x # xs) st =
     (case f x st of Inl e \<Rightarrow> Inl e | Inr st' \<Rightarrow> for_each f xs st')"

definition scrape_fallback :: "(fault + string) list \<Rightarrow> fault + Tweet list" where
  "scrape_fallback nodes =
     (let n = min (length nodes) 200
      in case for_each (loop_body fallback_candidate fallback_key) (take n nodes) ([], {}) of
           Inl e \<Rightarrow> Inl e
         | Inr st \<Rightarrow> Inr (fst st))"

definition scrape_structured :: "container list \<Rightarrow> fault + Tweet list" where
  "scrape_structured arts =
     (case for_each (loop_body structured_candidate structured_key)
             (take (min (length arts) 180) arts) ([], {}) of
        Inl e \<Rightarrow> Inl e
      | Inr st \<Rightarrow> Inr (fst st))"

definition scrape_tweets :: "page \<Rightarrow> fault + Tweet list" where
  "scrape_tweets pg =
     (let count = length (articles pg)
      in if count = 0 then scrape_fallback (text_nodes pg)
         else scrape_structured (articles pg))"

section \<open>The run\<close>

text \<open>\<open>str(i)\<close> for an int, as the f-string of the summary formats it.\<close>

fun str_nat :: "nat \<Rightarrow> string" where
  "str_nat n = (if n < 10 then [char_of (48 + n)] else str_nat (n div 10) @ [char_of (48 + n mod 10)])"

definition str_int :: "int \<Rightarrow> string" where
  "str_int i = (if i < 0 then CHR ''-'' # str_nat (nat (- i)) else str_nat (nat i))"

text \<open>One entry of \<open>classified\<close>: the dict with keys \<open>handle\<close>, \<open>text\<close>, \<open>stance\<close>.\<close>

record classified =
  c_handle :: string
  c_text :: string
  c_stance :: stance

text \<open>Lines 198--201.\<close>

definition classify_all ::
  "(string \<Rightarrow> real) \<Rightarrow> Tweet list \<Rightarrow> classified list \<times> counts" where
  "classify_all sia tweets =
     fold (\<lambda>t (cl, cnt).
             let st = classify_stance (body t) sia
             in (cl @ [\<lparr>c_handle = handle t, c_text = body t, c_stance = st\<rparr>], bump st cnt))
          tweets ([], \<lparr>positive = 0, negative = 0, neutral = 0\<rparr>)"

definition summary_of :: "counts \<Rightarrow> string list \<Rightarrow> string" where
  "summary_of cnt themes =
     (let themes_str = (if themes \<noteq> [] then join '' and '' themes else ''mixed themes'')
      in ''On #Tariffs, tweets skew '' @ skew cnt @ '' ('' @ str_int (neg_pct cnt)
         @ ''% negative, '' @ str_int (pos_pct cnt) @ ''% positive, '' @ str_int (neu_pct cnt)
         @ ''% neutral), with frequent mentions of '' @ themes_str @ ''.'')"

text \<open>
  What a run that reaches its end has produced: the number of the \<open>[SCRAPE]\<close> line, the
  summary sentence and the counts that are printed, and the CSV file (its name and its
  rows, as \<open>csv.writer\<close> receives them).
\<close>

record run_output =
  collected :: nat
  summary :: string
  printed_counts :: counts
  out :: string
  rows :: "string list list"

datatype error = ContentUnavailable | ExtractionFault fault

text \<open>
  The browser that \<open>load_results\<close> drives: \<open>goto\<close> is \<open>page.goto(url)\<close>, \<open>wait\<close> lets
  the given number of milliseconds pass (\<open>wait_for_timeout\<close>, \<open>asyncio.sleep\<close>), \<open>press\<close>
  is \<open>page.keyboard.press(key)\<close>, and \<open>view\<close> is the page that the locators read in a
  state.
\<close>

record 's browser =
  goto :: "string \<Rightarrow> 's \<Rightarrow> 's"
  wait :: "nat \<Rightarrow> 's \<Rightarrow> 's"
  press :: "string \<Rightarrow> 's \<Rightarrow> 's"
  view :: "'s \<Rightarrow> page"

definition load_results :: "'s browser \<Rightarrow> 's \<Rightarrow> 's" where
  "load_results br s =
     (let desktop = ''https://x.com/search?q=%23Tariffs&src=typed_query&f=live'';
          mobile = ''https://mobile.twitter.com/search?q=%23Tariffs&src=typed_query&f=live'';
          s = wait br 1800 (goto br desktop s);
          s = (if length (text_nodes (view br s)) = 0 then wait br 1800 (goto br mobile s) else s)
      in ((\<lambda>s. wait br 700 (press br ''PageDown'' s)) ^^ 12) s)"

text \<open>
  \<open>main\<close> from line 190 on. \<open>s\<close> is the state of the browser when \<open>load_results\<close> is
  called, \<open>sia\<close> the analyser and \<open>ts\<close> the timestamp string of line 216.
  \<open>ContentUnavailable\<close> is the \<open>RuntimeError\<close> of line 192; an exception of
  \<open>scrape_tweets\<close> leaves \<open>main\<close> too.
\<close>

definition main :: "'s browser \<Rightarrow> 's \<Rightarrow> (string \<Rightarrow> real) \<Rightarrow> string \<Rightarrow> error + run_output" where
  "main br s sia ts =
     (let pg = view br (load_results br s)
      in if length (text_nodes pg) = 0 then Inl ContentUnavailable
         else case scrape_tweets pg of
                Inl e \<Rightarrow> Inl (ExtractionFault e)
              | Inr tweets \<Rightarrow>
                  (let (cl, cnt) = classify_all sia tweets;
                       themes = top_themes (map c_text cl) 2
                   in Inr \<lparr>collected = length tweets,
                           summary = summary_of cnt themes,
                           printed_counts = cnt,
                           out = ''tariffs_tweets_'' @ ts @ ''.csv'',
                           rows = [''handle'', ''text'', ''stance'']
                                  # map (\<lambda>r. [c_handle r, c_text r, stance_str (c_stance r)]) cl\<rparr>))"

section \<open>Notions used to state the properties\<close>

text \<open>
  The match count of a theme over the texts: the number of texts that contain, lowercased,
  at least one of its keywords. \<open>theme_index\<close> is the position of a theme in the
  declaration order of \<open>THEMES\<close>.
\<close>

definition match_count :: "string list \<Rightarrow> string list \<Rightarrow> int" where
  "match_count keys texts = int (length (filter (\<lambda>tx. any_in keys (lower tx)) texts))"

definition theme_count :: "string list \<Rightarrow> string \<Rightarrow> int" where
  "theme_count texts name =
     (case map_of THEMES name of Some keys \<Rightarrow> match_count keys texts | None \<Rightarrow> 0)"

definition theme_index :: "string \<Rightarrow> nat" where
  "theme_index name = length (takeWhile (\<lambda>(n, _). n \<noteq> name) THEMES)"

text \<open>Ranking order: higher count first, and the earlier declared theme first on a tie.\<close>

definition ranks_before :: "string list \<Rightarrow> string \<Rightarrow> string \<Rightarrow> bool" where
  "ranks_before texts a b =
     (theme_count texts a > theme_count texts b
      \<or> (theme_count texts a = theme_count texts b \<and> theme_index a < theme_index b))"

text \<open>The exception, if any, that the \<open>try\<close> block of a container raises.\<close>

definition handle_fault :: "container \<Rightarrow> bool" where
  "handle_fault art = (snd (handle_try art ''@unknown'') \<noteq> None)"

text \<open>
  The post candidates of a list of elements, in traversal order: what the loop bodies
  build before they look at \<open>seen\<close>. A fault of an element is a fault of the whole.
\<close>

fun collect :: "('a \<Rightarrow> fault + 'b option) \<Rightarrow> 'a list \<Rightarrow> fault + 'b list" where
  "collect cand [] = Inr []"
| "collect cand (x # xs) =
     (case cand x of
        Inl e \<Rightarrow> Inl e
      | Inr c \<Rightarrow>
          (case collect cand xs of
             Inl e \<Rightarrow> Inl e
           | Inr cs \<Rightarrow> Inr (case c of None \<Rightarrow> cs | Some tw \<Rightarrow> tw # cs)))"

definition candidates :: "page \<Rightarrow> fault + Tweet list" where
  "candidates pg =
     (if articles pg = [] then collect fallback_candidate (take 200 (text_nodes pg))
      else collect structured_candidate (take 180 (articles pg)))"

text \<open>The dedup key of the data model: the handle and the first 80 characters.\<close>

definition dedup_key :: "Tweet \<Rightarrow> string \<times> string" where
  "dedup_key tw = (handle tw, take 80 (body tw))"

text \<open>The elements of a list that no earlier element shares its key with.\<close>

definition first_of_key :: "('a \<Rightarrow> 'k) \<Rightarrow> 'a list \<Rightarrow> 'a list" where
  "first_of_key key cs =
     map (\<lambda>i. cs ! i)
       (filter (\<lambda>i. \<forall>j \<in> set [0..<i]. key (cs ! j) \<noteq> key (cs ! i)) [0..<length cs])"

text \<open>The same, by recursion, for keys that are not in \<open>seen\<close>.\<close>

fun firsts :: "('a \<Rightarrow> 'k) \<Rightarrow> 'k set \<Rightarrow> 'a list \<Rightarrow> 'a list" where
  "firsts key seen [] = []"
| "firsts key seen (c # cs) =
     (if key c \<in> seen then firsts key seen cs else c # firsts key (insert (key c) seen) cs)"

text \<open>
  Whitespace-normalized text: the only whitespace is the space character, no two
  whitespace characters are adjacent, and neither end is whitespace.
\<close>

fun single_spaced :: "string \<Rightarrow> bool" where
  "single_spaced [] = True"
| "single_spaced [c] = (isspace c \<longrightarrow> c = CHR '' '')"
| "single_spaced (c # d # cs) =
     ((isspace c \<longrightarrow> c = CHR '' '' \<and> \<not> isspace d) \<and> single_spaced (d # cs))"

definition normalized :: "string \<Rightarrow> bool" where
  "normalized s =
     (single_spaced s \<and> (s \<noteq> [] \<longrightarrow> \<not> isspace (hd s) \<and> \<not> isspace (last s)))"

section \<open>Properties of the aggregator and of the classifier\<close>

lemma pct_floor_div:
  "\<lfloor>real_of_int (100 * k) / real_of_int (total_of c)\<rfloor> = (100 * k) div total_of c"
  by (rule floor_divide_of_int_eq)

lemma total_of_pos: "1 \<le> total_of c"
  by (simp add: total_of_def)

lemma pct_bounds:
  assumes "0 \<le> k" and "k \<le> total_of c"
  shows "0 \<le> (100 * k) div total_of c \<and> (100 * k) div total_of c \<le> 100"
proof -
  have t: "0 < total_of c" using total_of_pos [of c] by linarith
  have "0 \<le> (100 * k) div total_of c"
    using assms(1) t by (simp add: pos_imp_zdiv_nonneg_iff)
  moreover have "(100 * k) div total_of c \<le> (100 * total_of c) div total_of c"
    using assms(2) t by (intro zdiv_mono1) auto
  moreover have "(100 * total_of c) div total_of c = 100"
    using t by simp
  ultimately show ?thesis by simp
qed

text \<open>
  Claim C1. For non-negative counts, \<open>total\<close> is \<open>max(1, positive + negative + neutral)\<close>,
  \<open>pos_pct\<close> and \<open>neg_pct\<close> are the floors of \<open>100 * positive / total\<close> and
  \<open>100 * negative / total\<close> (the integer quotients), \<open>neu_pct\<close> is the remainder
  \<open>100 - pos_pct - neg_pct\<close>, and the three percentages sum to exactly 100; when all
  counts are zero they are 0, 0 and 100. Both floors lie between 0 and 100.
\<close>

theorem percentages_sum_to_100:
  assumes "0 \<le> positive c" and "0 \<le> negative c" and "0 \<le> neutral c"
  shows "total_of c = max 1 (positive c + negative c + neutral c)
    \<and> pos_pct c = (100 * positive c) div total_of c
    \<and> neg_pct c = (100 * negative c) div total_of c
    \<and> neu_pct c = 100 - pos_pct c - neg_pct c
    \<and> pos_pct c + neg_pct c + neu_pct c = 100
    \<and> 0 \<le> pos_pct c \<and> pos_pct c \<le> 100 \<and> 0 \<le> neg_pct c \<and> neg_pct c \<le> 100
    \<and> (positive c = 0 \<and> negative c = 0 \<and> neutral c = 0
         \<longrightarrow> pos_pct c = 0 \<and> neg_pct c = 0 \<and> neu_pct c = 100)"
proof -
  have p: "pos_pct c = (100 * positive c) div total_of c"
    unfolding pos_pct_def by (rule pct_floor_div)
  have n: "neg_pct c = (100 * negative c) div total_of c"
    unfolding neg_pct_def by (rule pct_floor_div)
  have "positive c \<le> total_of c" and "negative c \<le> total_of c"
    using assms by (simp_all add: total_of_def)
  then have b: "0 \<le> pos_pct c \<and> pos_pct c \<le> 100" "0 \<le> neg_pct c \<and> neg_pct c \<le> 100"
    using assms(1,2) pct_bounds [of "positive c" c] pct_bounds [of "negative c" c]
    by (simp_all add: p n)
  have z: "positive c = 0 \<and> negative c = 0 \<and> neutral c = 0
         \<longrightarrow> pos_pct c = 0 \<and> neg_pct c = 0 \<and> neu_pct c = 100"
    by (simp add: p n neu_pct_def)
  show ?thesis
    using p n b z by (simp add: neu_pct_def total_of_def)
qed

theorem percentages_sum_to_100_witness:
  "pos_pct \<lparr>positive = 1, negative = 1, neutral = 2\<rparr> = 25
   \<and> neg_pct \<lparr>positive = 1, negative = 1, neutral = 2\<rparr> = 25
   \<and> neu_pct \<lparr>positive = 1, negative = 1, neutral = 2\<rparr> = 50
   \<and> pos_pct \<lparr>positive = 1, negative = 1, neutral = 2\<rparr>
       + neg_pct \<lparr>positive = 1, negative = 1, neutral = 2\<rparr>
       + neu_pct \<lparr>positive = 1, negative = 1, neutral = 2\<rparr> = 100"
  using percentages_sum_to_100 [of "\<lparr>positive = 1, negative = 1, neutral = 2\<rparr>"]
  by (simp add: total_of_def)

text \<open>
  Claim C6. The skew label is \<open>"negative"\<close> iff the negative count strictly exceeds
  both others, \<open>"positive"\<close> iff the positive count strictly exceeds both others, and
  \<open>"mixed"\<close> in every other case.
\<close>

theorem skew_label:
  "(skew c = ''negative'' \<longleftrightarrow> negative c > positive c \<and> negative c > neutral c)
   \<and> (skew c = ''positive'' \<longleftrightarrow> positive c > negative c \<and> positive c > neutral c)
   \<and> (skew c = ''mixed'' \<longleftrightarrow>
        \<not> (negative c > positive c \<and> negative c > neutral c)
        \<and> \<not> (positive c > negative c \<and> positive c > neutral c))"
  by (auto simp: skew_def)

theorem skew_label_witness:
  "skew \<lparr>positive = 1, negative = 1, neutral = 2\<rparr> = ''mixed''
   \<and> skew \<lparr>positive = 2, negative = 2, neutral = 2\<rparr> = ''mixed''
   \<and> skew \<lparr>positive = 3, negative = 3, neutral = 1\<rparr> = ''mixed''"
  using skew_label [of "\<lparr>positive = 1, negative = 1, neutral = 2\<rparr>"]
    skew_label [of "\<lparr>positive = 2, negative = 2, neutral = 2\<rparr>"]
    skew_label [of "\<lparr>positive = 3, negative = 3, neutral = 1\<rparr>"]
  by simp

text \<open>
  Claim C3. \<open>classify_stance\<close> takes the compound score of the analyser, adds 0.20 if
  the lowercased text contains a positive hint, subtracts 0.20 if it contains a negative
  hint (both may apply), and returns positive iff the adjusted score is at least 0.2,
  negative iff it is at most -0.2, and neutral otherwise.
\<close>

theorem classify_stance_thresholds:
  "(let adj = sia t + (if any_in POS_TARIFF_HINTS (lower t) then 0.20 else 0)
                    - (if any_in NEG_TARIFF_HINTS (lower t) then 0.20 else 0)
    in (classify_stance t sia = Positive \<longleftrightarrow> adj \<ge> 0.2)
     \<and> (classify_stance t sia = Negative \<longleftrightarrow> adj \<le> - 0.2)
     \<and> (classify_stance t sia = Neutral \<longleftrightarrow> - 0.2 < adj \<and> adj < 0.2))"
  by (auto simp: classify_stance_def Let_def)

lemma hints_example:
  "any_in POS_TARIFF_HINTS (lower ''Tariffs are GOOD but bad'')"
  "any_in NEG_TARIFF_HINTS (lower ''Tariffs are GOOD but bad'')"
  "\<not> any_in NEG_TARIFF_HINTS (lower ''Tariffs are protecting American jobs and manufacturing, great policy!'')"
  "any_in POS_TARIFF_HINTS (lower ''Tariffs are protecting American jobs and manufacturing, great policy!'')"
  by code_simp+

theorem classify_stance_thresholds_witness:
  "classify_stance ''Tariffs are protecting American jobs and manufacturing, great policy!'' (\<lambda>_. 0) = Positive"
  using classify_stance_thresholds [of "\<lambda>_. 0" "''Tariffs are protecting American jobs and manufacturing, great policy!''"]
  by (simp add: hints_example)

text \<open>
  Claim C10. When the lowercased text contains both a positive and a negative hint, the
  two adjustments cancel (in exact arithmetic): the stance is the one the unadjusted
  compound score gives.
\<close>

theorem hints_cancel:
  assumes "any_in POS_TARIFF_HINTS (lower t)" and "any_in NEG_TARIFF_HINTS (lower t)"
  shows "classify_stance t sia =
           (if sia t \<ge> 0.2 then Positive else if sia t \<le> - 0.2 then Negative else Neutral)"
  using assms by (simp add: classify_stance_def Let_def)

theorem hints_cancel_witness:
  "any_in POS_TARIFF_HINTS (lower ''Tariffs are GOOD but bad'')
   \<and> any_in NEG_TARIFF_HINTS (lower ''Tariffs are GOOD but bad'')
   \<and> classify_stance ''Tariffs are GOOD but bad'' (\<lambda>_. 1 / 10) = Neutral"
  using hints_cancel [of "''Tariffs are GOOD but bad''" "\<lambda>_. 1 / 10"]
  by (simp add: hints_example)



section \<open>Properties of the post extractor\<close>

subsection \<open>The loops and the first occurrence of a key\<close>

lemma for_each_loop_body:
  "for_each (loop_body cand key) xs (acc, seen) =
     (case collect cand xs of
        Inl e \<Rightarrow> Inl e
      | Inr cs \<Rightarrow> Inr (acc @ firsts key seen cs, seen \<union> key ` set cs))"
proof (induction xs arbitrary: acc seen)
  case Nil
  then show ?case by simp
next
  case (Cons x xs)
  show ?case
  proof (cases "cand x")
    case (Inl e)
    then show ?thesis by (simp add: loop_body_def)
  next
    case (Inr c)
    show ?thesis
    proof (cases c)
      case None
      with Inr Cons show ?thesis
        by (simp add: loop_body_def split: sum.splits)
    next
      case (Some tw)
      with Inr Cons show ?thesis
        by (auto simp: loop_body_def keep_def split: sum.splits)
    qed
  qed
qed

lemma firsts_subset: "set (firsts key seen cs) \<subseteq> set cs"
  by (induction cs arbitrary: seen) auto

lemma firsts_length: "length (firsts key seen cs) \<le> length cs"
  by (induction cs arbitrary: seen) (auto simp: le_SucI)

lemma collect_length: "collect cand xs = Inr cs \<Longrightarrow> length cs \<le> length xs"
  by (induction xs arbitrary: cs) (auto split: sum.splits option.splits)

lemma firsts_keys: "key ` set (firsts key seen cs) = key ` set cs - seen"
  by (induction cs arbitrary: seen) auto

lemma firsts_distinct: "distinct (map key (firsts key seen cs))"
proof (induction cs arbitrary: seen)
  case Nil
  then show ?case by simp
next
  case (Cons c cs)
  have "key c \<notin> key ` set (firsts key (insert (key c) seen) cs)"
    by (simp add: firsts_keys)
  with Cons show ?case by simp
qed

lemma upt_Suc_shift: "[0..<Suc n] = 0 # map Suc [0..<n]"
  by (simp add: upt_conv_Cons map_Suc_upt del: upt_Suc)

lemma index_filter_Cons:
  "map (\<lambda>i. (c # cs) ! i) (filter Q [0..<length (c # cs)]) =
     (if Q 0 then [c] else []) @ map (\<lambda>i. cs ! i) (filter (\<lambda>i. Q (Suc i)) [0..<length cs])"
proof -
  have "[0..<length (c # cs)] = 0 # map Suc [0..<length cs]"
    using upt_Suc_shift [of "length cs"] by simp
  then show ?thesis
    by (simp add: filter_map o_def)
qed

lemma ball_upt_Suc:
  "(\<forall>j \<in> set [0..<Suc i]. P j) \<longleftrightarrow> P 0 \<and> (\<forall>j \<in> set [0..<i]. P (Suc j))"
proof -
  have "(\<forall>j \<in> set [0..<Suc i]. P j) \<longleftrightarrow> (\<forall>j<Suc i. P j)"
    by (simp add: Ball_def del: upt_Suc)
  also have "\<dots> \<longleftrightarrow> P 0 \<and> (\<forall>j<i. P (Suc j))" by (rule All_less_Suc2)
  also have "\<dots> \<longleftrightarrow> P 0 \<and> (\<forall>j \<in> set [0..<i]. P (Suc j))" by auto
  finally show ?thesis .
qed

lemma firsts_index:
  "firsts key seen cs =
     map (\<lambda>i. cs ! i)
       (filter (\<lambda>i. key (cs ! i) \<notin> seen \<and> (\<forall>j \<in> set [0..<i]. key (cs ! j) \<noteq> key (cs ! i)))
          [0..<length cs])"
proof (induction cs arbitrary: seen)
  case Nil
  then show ?case by simp
next
  case (Cons c cs)
  let ?Q = "\<lambda>s i. key (cs ! i) \<notin> s \<and> (\<forall>j \<in> set [0..<i]. key (cs ! j) \<noteq> key (cs ! i))"
  let ?R = "\<lambda>i. key ((c # cs) ! i) \<notin> seen
                \<and> (\<forall>j \<in> set [0..<i]. key ((c # cs) ! j) \<noteq> key ((c # cs) ! i))"
  have R0: "?R 0 \<longleftrightarrow> key c \<notin> seen" by simp
  have RS: "?R (Suc i) \<longleftrightarrow> key (cs ! i) \<notin> seen \<and> key c \<noteq> key (cs ! i)
              \<and> (\<forall>j \<in> set [0..<i]. key (cs ! j) \<noteq> key (cs ! i))" for i
    by (simp only: ball_upt_Suc nth_Cons_Suc nth_Cons_0)
  have expand: "map (\<lambda>i. (c # cs) ! i) (filter ?R [0..<length (c # cs)]) =
      (if key c \<notin> seen then [c] else [])
      @ map (\<lambda>i. cs ! i) (filter (\<lambda>i. ?R (Suc i)) [0..<length cs])"
    by (simp only: index_filter_Cons [of c cs ?R] R0)
  show ?case
  proof (cases "key c \<in> seen")
    case True
    have "filter (\<lambda>i. ?R (Suc i)) [0..<length cs] = filter (?Q seen) [0..<length cs]"
      using True by (intro filter_cong refl) (auto simp only: RS)
    with True Cons.IH [of seen] show ?thesis
      by (simp only: expand firsts.simps if_True if_False not_True_eq_False append_Nil simp_thms)
  next
    case False
    have "filter (\<lambda>i. ?R (Suc i)) [0..<length cs] = filter (?Q (insert (key c) seen)) [0..<length cs]"
      by (intro filter_cong refl) (auto simp only: RS insert_iff)
    with False Cons.IH [of "insert (key c) seen"] show ?thesis
      by (simp only: expand firsts.simps if_True if_False not_False_eq_True append_Cons append_Nil simp_thms)
  qed
qed

lemma firsts_first_of_key: "firsts key {} cs = first_of_key key cs"
  by (simp add: firsts_index first_of_key_def)

lemma first_of_key_cong:
  assumes "\<And>a b. a \<in> set cs \<Longrightarrow> b \<in> set cs \<Longrightarrow> key a = key b \<longleftrightarrow> key' a = key' b"
  shows "first_of_key key cs = first_of_key key' cs"
  unfolding first_of_key_def
  by (rule arg_cong [where f = "map _"], rule filter_cong) (auto simp: assms)

lemma collect_all:
  assumes "collect cand xs = Inr cs" and "\<forall>x \<in> set xs. \<forall>c. cand x = Inr (Some c) \<longrightarrow> P c"
  shows "\<forall>c \<in> set cs. P c"
  using assms
proof (induction xs arbitrary: cs)
  case Nil
  then show ?case by simp
next
  case (Cons x xs)
  then show ?case
    by (auto split: sum.splits option.splits)
qed


subsection \<open>Handles\<close>

lemma colon_not_word: "\<not> isword CHR '':''"
  by (simp add: isword_def)

lemma re_search_handle_shape:
  "re_search_handle s = Some m \<Longrightarrow>
     \<exists>w. m = CHR ''@'' # w \<and> w \<noteq> [] \<and> length w \<le> 15 \<and> (\<forall>c \<in> set w. isword c)"
proof (induction s)
  case Nil
  then show ?case by simp
next
  case (Cons c cs)
  show ?case
  proof (cases "c = CHR ''@'' \<and> takeWhile isword cs \<noteq> []")
    case True
    with Cons.prems have m: "m = CHR ''@'' # take 15 (takeWhile isword cs)" by auto
    have "\<forall>c \<in> set (take 15 (takeWhile isword cs)). isword c"
      by (auto dest: in_set_takeD set_takeWhileD)
    with m True show ?thesis by simp
  next
    case False
    with Cons show ?thesis by auto
  qed
qed

lemma re_search_handle_no_colon:
  "re_search_handle s = Some m \<Longrightarrow> CHR '':'' \<notin> set m"
  using re_search_handle_shape [of s m] colon_not_word by auto

lemma handle_try_no_colon:
  "CHR '':'' \<notin> set h0 \<Longrightarrow> CHR '':'' \<notin> set (fst (handle_try art h0))"
  unfolding handle_try_def
  by (auto split: sum.splits option.splits if_splits dest: re_search_handle_no_colon)

lemma extract_handle_no_colon: "CHR '':'' \<notin> set (extract_handle art)"
  unfolding extract_handle_def by (rule handle_try_no_colon) simp

lemma handle_fault_unknown: "handle_fault art \<Longrightarrow> extract_handle art = ''@unknown''"
  unfolding handle_fault_def extract_handle_def handle_try_def
  by (auto split: sum.splits option.splits if_splits)

lemma colon_key_inj:
  assumes "CHR '':'' \<notin> set h1" and "CHR '':'' \<notin> set h2"
    and "h1 @ ''::'' @ p1 = h2 @ ''::'' @ p2"
  shows "h1 = h2 \<and> p1 = p2"
proof -
  have tw: "takeWhile (\<lambda>c. c \<noteq> CHR '':'') (h @ ''::'' @ p) = h" if "CHR '':'' \<notin> set h" for h p
    using that by (induction h) auto
  from assms(3) have "takeWhile (\<lambda>c. c \<noteq> CHR '':'') (h1 @ ''::'' @ p1)
      = takeWhile (\<lambda>c. c \<noteq> CHR '':'') (h2 @ ''::'' @ p2)" by simp
  then have "h1 = h2" using assms(1,2) by (metis tw)
  with assms(3) show ?thesis by simp
qed

lemma structured_key_iff:
  assumes "CHR '':'' \<notin> set (handle a)" and "CHR '':'' \<notin> set (handle b)"
  shows "structured_key a = structured_key b \<longleftrightarrow> dedup_key a = dedup_key b"
  using assms colon_key_inj [of "handle a" "handle b" "take 80 (body a)" "take 80 (body b)"]
  by (auto simp: structured_key_def dedup_key_def)

lemma fallback_key_iff:
  assumes "handle a = ''@unknown''" and "handle b = ''@unknown''"
  shows "fallback_key a = fallback_key b \<longleftrightarrow> dedup_key a = dedup_key b"
  using assms by (simp add: fallback_key_def dedup_key_def)

subsection \<open>Whitespace\<close>

lemma single_spaced_Cons:
  "single_spaced (c # xs) \<longleftrightarrow>
     (isspace c \<longrightarrow> c = CHR '' '' \<and> (xs \<noteq> [] \<longrightarrow> \<not> isspace (hd xs))) \<and> single_spaced xs"
  by (cases xs) auto

lemma single_spaced_append:
  "single_spaced (xs @ ys) \<Longrightarrow> single_spaced xs \<and> single_spaced ys"
proof (induction xs)
  case Nil
  then show ?case by simp
next
  case (Cons c xs)
  then show ?case
    by (cases xs) (auto simp: single_spaced_Cons)
qed

lemma single_spaced_dropWhile: "single_spaced s \<Longrightarrow> single_spaced (dropWhile P s)"
  using single_spaced_append [of "takeWhile P s" "dropWhile P s"] by simp

lemma single_spaced_strip: "single_spaced s \<Longrightarrow> single_spaced (strip s)"
proof -
  assume a: "single_spaced s"
  let ?t = "dropWhile isspace s"
  have "?t = strip s @ rev (takeWhile isspace (rev ?t))"
    unfolding strip_def
    by (metis rev_append rev_rev_ident takeWhile_dropWhile_id)
  with single_spaced_dropWhile [OF a, of isspace] single_spaced_append show ?thesis
    by metis
qed

lemma strip_ends: "strip s \<noteq> [] \<Longrightarrow> \<not> isspace (hd (strip s)) \<and> \<not> isspace (last (strip s))"
proof -
  assume ne: "strip s \<noteq> []"
  let ?t = "dropWhile isspace s"
  let ?u = "dropWhile isspace (rev ?t)"
  have u: "?u \<noteq> []" using ne by (simp add: strip_def)
  have t: "?t = strip s @ rev (takeWhile isspace (rev ?t))"
    unfolding strip_def
    by (metis rev_append rev_rev_ident takeWhile_dropWhile_id)
  have "?t \<noteq> []" using t ne by (metis Nil_is_append_conv)
  then have "\<not> isspace (hd ?t)" by (rule hd_dropWhile)
  moreover have "hd ?t = hd (strip s)" using t ne by (metis hd_append2)
  moreover have "\<not> isspace (hd ?u)" using u by (rule hd_dropWhile)
  moreover have "last (strip s) = hd ?u" using u by (simp add: strip_def last_rev)
  ultimately show ?thesis by simp
qed

lemma re_sub_ws_Nil: "re_sub_ws s = [] \<longleftrightarrow> s = []"
  by (cases s) auto

lemma re_sub_ws_hd: "s \<noteq> [] \<Longrightarrow> isspace (hd (re_sub_ws s)) \<longleftrightarrow> isspace (hd s)"
  by (cases s) (auto simp: isspace_def)

lemma single_spaced_re_sub_ws: "single_spaced (re_sub_ws s)"
proof (induction s rule: re_sub_ws.induct)
  case 1
  then show ?case by simp
next
  case (2 c cs)
  show ?case
  proof (cases "isspace c")
    case True
    let ?d = "dropWhile isspace cs"
    have "re_sub_ws ?d \<noteq> [] \<Longrightarrow> \<not> isspace (hd (re_sub_ws ?d))"
    proof -
      assume "re_sub_ws ?d \<noteq> []"
      then have d: "?d \<noteq> []" by (simp add: re_sub_ws_Nil)
      then have "\<not> isspace (hd ?d)" by (rule hd_dropWhile)
      with d show ?thesis by (simp add: re_sub_ws_hd)
    qed
    with True 2 show ?thesis by (simp add: single_spaced_Cons)
  next
    case False
    with 2 show ?thesis by (simp add: single_spaced_Cons)
  qed
qed

lemma last_dropWhile: "xs \<noteq> [] \<Longrightarrow> \<not> P (last xs) \<Longrightarrow> last (dropWhile P xs) = last xs"
  by (induction xs) (auto split: if_splits)

lemma dropWhile_last_ne: "xs \<noteq> [] \<Longrightarrow> \<not> P (last xs) \<Longrightarrow> dropWhile P xs \<noteq> []"
  by (induction xs) (auto split: if_splits)

lemma re_sub_ws_last: "s \<noteq> [] \<Longrightarrow> \<not> isspace (last s) \<Longrightarrow> last (re_sub_ws s) = last s"
proof (induction s rule: re_sub_ws.induct)
  case 1
  then show ?case by simp
next
  case (2 c cs)
  show ?case
  proof (cases "isspace c")
    case True
    let ?d = "dropWhile isspace cs"
    from "2.prems" True have cs: "cs \<noteq> []" "\<not> isspace (last cs)"
      by (auto split: if_splits)
    have d1: "?d \<noteq> []" using cs by (rule dropWhile_last_ne)
    have d2: "last ?d = last cs" using cs by (rule last_dropWhile)
    have "\<not> isspace (last ?d)" using cs(2) d2 by metis
    with True d1 have ih: "last (re_sub_ws ?d) = last ?d" by (rule "2.IH"(1))
    have r: "re_sub_ws ?d \<noteq> []" using d1 re_sub_ws_Nil by blast
    have "re_sub_ws (c # cs) = CHR '' '' # re_sub_ws ?d" using True by simp
    then have "last (re_sub_ws (c # cs)) = last (re_sub_ws ?d)" using r by simp
    also have "\<dots> = last (c # cs)" using ih d2 cs(1) by simp
    finally show ?thesis .
  next
    case False
    with 2 show ?thesis by (cases cs) (auto simp: re_sub_ws_Nil)
  qed
qed

lemma normalized_container_text: "normalized (container_text cs)"
  unfolding normalized_def container_text_def
  using single_spaced_strip [OF single_spaced_re_sub_ws] strip_ends by blast

lemma normalized_fallback_text: "normalized (re_sub_ws (strip raw))"
proof (cases "strip raw = []")
  case True
  then show ?thesis by (simp add: normalized_def)
next
  case False
  with strip_ends [of raw] have e: "\<not> isspace (hd (strip raw))" "\<not> isspace (last (strip raw))"
    by simp_all
  have "\<not> isspace (hd (re_sub_ws (strip raw)))"
    using False e(1) by (simp add: re_sub_ws_hd)
  moreover have "\<not> isspace (last (re_sub_ws (strip raw)))"
    using False e(2) by (simp add: re_sub_ws_last)
  ultimately show ?thesis
    by (simp add: normalized_def single_spaced_re_sub_ws)
qed


subsection \<open>The extractor in terms of candidates\<close>

lemma take_min_length: "take (min (length xs) n) xs = take n xs"
  by (cases "length xs \<le> n") (simp_all add: min_def)

lemma scrape_fallback_collect:
  "scrape_fallback nodes =
     (case collect fallback_candidate (take 200 nodes) of
        Inl e \<Rightarrow> Inl e
      | Inr cs \<Rightarrow> Inr (firsts fallback_key {} cs))"
  by (simp add: scrape_fallback_def take_min_length for_each_loop_body split: sum.splits)

lemma scrape_structured_collect:
  "scrape_structured arts =
     (case collect structured_candidate (take 180 arts) of
        Inl e \<Rightarrow> Inl e
      | Inr cs \<Rightarrow> Inr (firsts structured_key {} cs))"
  by (simp add: scrape_structured_def take_min_length for_each_loop_body split: sum.splits)

lemma fallback_candidate_props:
  "fallback_candidate node = Inr (Some c) \<Longrightarrow>
     handle c = ''@unknown'' \<and> normalized (body c) \<and> 20 \<le> length (body c)"
  by (auto simp: fallback_candidate_def Let_def normalized_fallback_text
        split: sum.splits if_splits)

lemma structured_candidate_props:
  "structured_candidate art = Inr (Some c) \<Longrightarrow>
     CHR '':'' \<notin> set (handle c) \<and> normalized (body c) \<and> 20 \<le> length (body c)"
  by (auto simp: structured_candidate_def Let_def normalized_container_text
        extract_handle_no_colon split: sum.splits if_splits)

lemma candidates_fallback_props:
  assumes "articles pg = []" and "candidates pg = Inr cands"
  shows "\<forall>c \<in> set cands. handle c = ''@unknown'' \<and> normalized (body c) \<and> 20 \<le> length (body c)"
proof (rule collect_all)
  show "collect fallback_candidate (take 200 (text_nodes pg)) = Inr cands"
    using assms by (simp add: candidates_def)
  show "\<forall>x \<in> set (take 200 (text_nodes pg)). \<forall>c. fallback_candidate x = Inr (Some c) \<longrightarrow>
          handle c = ''@unknown'' \<and> normalized (body c) \<and> 20 \<le> length (body c)"
    using fallback_candidate_props by blast
qed

lemma candidates_structured_props:
  assumes "articles pg \<noteq> []" and "candidates pg = Inr cands"
  shows "\<forall>c \<in> set cands. CHR '':'' \<notin> set (handle c) \<and> normalized (body c) \<and> 20 \<le> length (body c)"
proof (rule collect_all)
  show "collect structured_candidate (take 180 (articles pg)) = Inr cands"
    using assms by (simp add: candidates_def)
  show "\<forall>x \<in> set (take 180 (articles pg)). \<forall>c. structured_candidate x = Inr (Some c) \<longrightarrow>
          CHR '':'' \<notin> set (handle c) \<and> normalized (body c) \<and> 20 \<le> length (body c)"
    using structured_candidate_props by blast
qed

lemma scrape_tweets_firsts:
  "scrape_tweets pg =
     (case candidates pg of
        Inl e \<Rightarrow> Inl e
      | Inr cs \<Rightarrow> Inr (firsts (if articles pg = [] then fallback_key else structured_key) {} cs))"
  by (simp add: scrape_tweets_def candidates_def scrape_fallback_collect
        scrape_structured_collect)

lemma candidates_key_iff:
  assumes "candidates pg = Inr cands" and "a \<in> set cands" and "b \<in> set cands"
  shows "(if articles pg = [] then fallback_key else structured_key) a
           = (if articles pg = [] then fallback_key else structured_key) b
         \<longleftrightarrow> dedup_key a = dedup_key b"
proof (cases "articles pg = []")
  case True
  with assms candidates_fallback_props [OF True assms(1)] show ?thesis
    by (simp add: fallback_key_iff)
next
  case False
  with assms candidates_structured_props [OF False assms(1)] show ?thesis
    by (simp add: structured_key_iff)
qed

lemma scrape_tweets_first_of_key:
  "scrape_tweets pg =
     (case candidates pg of
        Inl e \<Rightarrow> Inl e
      | Inr cands \<Rightarrow> Inr (first_of_key dedup_key cands))"
proof (cases "candidates pg")
  case (Inl e)
  then show ?thesis by (simp add: scrape_tweets_firsts)
next
  case (Inr cands)
  let ?key = "if articles pg = [] then fallback_key else structured_key"
  have "first_of_key ?key cands = first_of_key dedup_key cands"
    by (rule first_of_key_cong) (rule candidates_key_iff [OF Inr])
  with Inr show ?thesis
    by (simp only: scrape_tweets_firsts firsts_first_of_key sum.case)
qed

lemma scrape_tweets_subset:
  assumes "scrape_tweets pg = Inr tweets"
  shows "\<exists>cands. candidates pg = Inr cands \<and> set tweets \<subseteq> set cands"
proof -
  let ?key = "if articles pg = [] then fallback_key else structured_key"
  from assms obtain cands where c: "candidates pg = Inr cands"
    and t: "tweets = firsts ?key {} cands"
    by (auto simp: scrape_tweets_firsts split: sum.splits)
  have "set tweets \<subseteq> set cands" unfolding t by (rule firsts_subset)
  with c show ?thesis by blast
qed

lemma scrape_tweets_distinct:
  assumes "scrape_tweets pg = Inr tweets"
  shows "distinct (map dedup_key tweets)"
proof -
  let ?key = "if articles pg = [] then fallback_key else structured_key"
  from assms obtain cands where c: "candidates pg = Inr cands"
    and t: "tweets = firsts ?key {} cands"
    by (auto simp: scrape_tweets_firsts split: sum.splits)
  have sub: "set tweets \<subseteq> set cands" using t firsts_subset by metis
  have d: "distinct (map ?key tweets)" unfolding t by (rule firsts_distinct)
  then have "distinct tweets" by (simp add: distinct_map)
  moreover have "inj_on dedup_key (set tweets)"
  proof (rule inj_onI)
    fix a b assume ab: "a \<in> set tweets" "b \<in> set tweets" "dedup_key a = dedup_key b"
    then have "?key a = ?key b" using candidates_key_iff [OF c, of a b] sub by blast
    with d ab show "a = b" by (meson distinct_map inj_onD)
  qed
  ultimately show ?thesis by (simp add: distinct_map)
qed

text \<open>
  Claim C5. In both modes the output of the extractor is the list of post candidates, in
  traversal order, without every candidate that an earlier candidate shares its dedup
  key (handle, first 80 characters of the text) with; the dedup keys of the output are
  pairwise distinct. (When reading an element raises, there are no candidates and no
  output.)
\<close>

theorem dedup_first_wins:
  "scrape_tweets pg =
     (case candidates pg of
        Inl e \<Rightarrow> Inl e
      | Inr cands \<Rightarrow> Inr (first_of_key dedup_key cands))
   \<and> (\<forall>tweets. scrape_tweets pg = Inr tweets \<longrightarrow> distinct (map dedup_key tweets))"
  using scrape_tweets_first_of_key scrape_tweets_distinct by blast

theorem dedup_first_wins_witness:
  "candidates
       \<lparr>articles =
          [\<lparr>chunks = Inr [''Tariffs are a tax on consumers and they raise prices for every family in the land, period''],
            user_count = Inr 1, user_text = Inr ''Ann @ann'', art_text = Inr ''Ann @ann''\<rparr>,
           \<lparr>chunks = Inr [''Tariffs are a tax on consumers and they raise prices for every family in the land, agreed''],
            user_count = Inr 1, user_text = Inr ''Ann @ann'', art_text = Inr ''Ann @ann''\<rparr>],
        text_nodes = [Inr ''Tariffs are a tax on consumers and they raise prices for every family in the land, period'', Inr ''Tariffs are a tax on consumers and they raise prices for every family in the land, agreed'']\<rparr>
     = Inr [\<lparr>handle = ''@ann'', body = ''Tariffs are a tax on consumers and they raise prices for every family in the land, period''\<rparr>,
            \<lparr>handle = ''@ann'', body = ''Tariffs are a tax on consumers and they raise prices for every family in the land, agreed''\<rparr>]
   \<and> dedup_key \<lparr>handle = ''@ann'', body = ''Tariffs are a tax on consumers and they raise prices for every family in the land, period''\<rparr>
     = dedup_key \<lparr>handle = ''@ann'', body = ''Tariffs are a tax on consumers and they raise prices for every family in the land, agreed''\<rparr>
   \<and> scrape_tweets
       \<lparr>articles =
          [\<lparr>chunks = Inr [''Tariffs are a tax on consumers and they raise prices for every family in the land, period''],
            user_count = Inr 1, user_text = Inr ''Ann @ann'', art_text = Inr ''Ann @ann''\<rparr>,
           \<lparr>chunks = Inr [''Tariffs are a tax on consumers and they raise prices for every family in the land, agreed''],
            user_count = Inr 1, user_text = Inr ''Ann @ann'', art_text = Inr ''Ann @ann''\<rparr>],
        text_nodes = [Inr ''Tariffs are a tax on consumers and they raise prices for every family in the land, period'', Inr ''Tariffs are a tax on consumers and they raise prices for every family in the land, agreed'']\<rparr>
     = Inr [\<lparr>handle = ''@ann'', body = ''Tariffs are a tax on consumers and they raise prices for every family in the land, period''\<rparr>]"
proof -
  let ?pg = "\<lparr>articles =
          [\<lparr>chunks = Inr [''Tariffs are a tax on consumers and they raise prices for every family in the land, period''],
            user_count = Inr 1, user_text = Inr ''Ann @ann'', art_text = Inr ''Ann @ann''\<rparr>,
           \<lparr>chunks = Inr [''Tariffs are a tax on consumers and they raise prices for every family in the land, agreed''],
            user_count = Inr 1, user_text = Inr ''Ann @ann'', art_text = Inr ''Ann @ann''\<rparr>],
        text_nodes = [Inr ''Tariffs are a tax on consumers and they raise prices for every family in the land, period'', Inr ''Tariffs are a tax on consumers and they raise prices for every family in the land, agreed'']\<rparr>"
  have c: "candidates ?pg
     = Inr [\<lparr>handle = ''@ann'', body = ''Tariffs are a tax on consumers and they raise prices for every family in the land, period''\<rparr>,
            \<lparr>handle = ''@ann'', body = ''Tariffs are a tax on consumers and they raise prices for every family in the land, agreed''\<rparr>]"
    by code_simp
  have k: "dedup_key \<lparr>handle = ''@ann'', body = ''Tariffs are a tax on consumers and they raise prices for every family in the land, period''\<rparr>
     = dedup_key \<lparr>handle = ''@ann'', body = ''Tariffs are a tax on consumers and they raise prices for every family in the land, agreed''\<rparr>"
    by code_simp
  have f: "first_of_key dedup_key
       [\<lparr>handle = ''@ann'', body = ''Tariffs are a tax on consumers and they raise prices for every family in the land, period''\<rparr>,
        \<lparr>handle = ''@ann'', body = ''Tariffs are a tax on consumers and they raise prices for every family in the land, agreed''\<rparr>]
     = [\<lparr>handle = ''@ann'', body = ''Tariffs are a tax on consumers and they raise prices for every family in the land, period''\<rparr>]"
    by code_simp
  from dedup_first_wins [of ?pg] have "scrape_tweets ?pg =
     (case candidates ?pg of
        Inl e \<Rightarrow> Inl e
      | Inr cands \<Rightarrow> Inr (first_of_key dedup_key cands))" by (rule conjunct1)
  then have "scrape_tweets ?pg = Inr [\<lparr>handle = ''@ann'', body = ''Tariffs are a tax on consumers and they raise prices for every family in the land, period''\<rparr>]"
    by (simp only: c f sum.case)
  with c k show ?thesis by (intro conjI)
qed

text \<open>
  Claim C8. Every post of the output, in either mode, has a whitespace-normalized text of
  length at least 20.
\<close>

theorem posts_normalized:
  assumes "scrape_tweets pg = Inr tweets"
  shows "\<forall>tw \<in> set tweets. normalized (body tw) \<and> 20 \<le> length (body tw)"
proof -
  from scrape_tweets_subset [OF assms] obtain cands
    where c: "candidates pg = Inr cands" and sub: "set tweets \<subseteq> set cands" by blast
  show ?thesis
  proof (cases "articles pg = []")
    case True
    from candidates_fallback_props [OF True c] sub show ?thesis by blast
  next
    case False
    from candidates_structured_props [OF False c] sub show ?thesis by blast
  qed
qed

theorem posts_normalized_witness:
  "scrape_tweets \<lparr>articles = [], text_nodes = [Inr (''  Tariffs   are'' @ [CHR 0x09] @ '' a tax '' @ [CHR 0x0A] @ '' on consumers  ''), Inr ''too short'']\<rparr>
     = Inr [\<lparr>handle = ''@unknown'', body = ''Tariffs are a tax on consumers''\<rparr>]
   \<and> normalized ''Tariffs are a tax on consumers''
   \<and> 20 \<le> length ''Tariffs are a tax on consumers''"
proof -
  have h: "scrape_tweets \<lparr>articles = [], text_nodes = [Inr (''  Tariffs   are'' @ [CHR 0x09] @ '' a tax '' @ [CHR 0x0A] @ '' on consumers  ''), Inr ''too short'']\<rparr>
     = Inr [\<lparr>handle = ''@unknown'', body = ''Tariffs are a tax on consumers''\<rparr>]"
    by code_simp
  from posts_normalized [OF h] h show ?thesis by simp
qed

text \<open>
  Claim C7. With zero containers the extractor runs the fallback loop, which looks at the
  first 200 text fragments at most, and every post of its output has the handle
  \<open>"@unknown"\<close>; with at least one container it runs the structured loop, which does not
  read the page's text fragments.
\<close>

theorem fallback_mode:
  "(articles pg = [] \<longrightarrow>
      scrape_tweets pg = scrape_fallback (text_nodes pg)
      \<and> scrape_fallback (text_nodes pg) = scrape_fallback (take 200 (text_nodes pg))
      \<and> (\<forall>tweets. scrape_tweets pg = Inr tweets \<longrightarrow>
            length tweets \<le> 200 \<and> (\<forall>tw \<in> set tweets. handle tw = ''@unknown'')))
   \<and> (articles pg \<noteq> [] \<longrightarrow> scrape_tweets pg = scrape_structured (articles pg))"
proof -
  have a: "scrape_fallback (text_nodes pg) = scrape_fallback (take 200 (text_nodes pg))"
    by (simp add: scrape_fallback_collect)
  have b: "\<forall>tw \<in> set tweets. handle tw = ''@unknown''"
    if "articles pg = []" and "scrape_tweets pg = Inr tweets" for tweets
    using scrape_tweets_subset [OF that(2)] candidates_fallback_props [OF that(1)] by blast
  have c: "length tweets \<le> 200"
    if "articles pg = []" and "scrape_tweets pg = Inr tweets" for tweets
  proof -
    let ?key = "if articles pg = [] then fallback_key else structured_key"
    from that obtain cands where cs: "candidates pg = Inr cands"
      and t: "tweets = firsts ?key {} cands"
      by (auto simp: scrape_tweets_firsts split: sum.splits)
    have "length tweets \<le> length cands" unfolding t by (rule firsts_length)
    also have "\<dots> \<le> length (take 200 (text_nodes pg))"
      using cs that(1) by (intro collect_length [of fallback_candidate]) (simp add: candidates_def)
    finally show ?thesis by simp
  qed
  show ?thesis
    using a b c by (simp add: scrape_tweets_def)
qed

theorem fallback_mode_witness:
  "scrape_tweets \<lparr>articles = [], text_nodes = [Inr ''Tariffs bring back jobs for us'', Inr ''too short'']\<rparr>
     = Inr [\<lparr>handle = ''@unknown'', body = ''Tariffs bring back jobs for us''\<rparr>]
   \<and> scrape_tweets \<lparr>articles = [], text_nodes = [Inr ''Tariffs bring back jobs for us'', Inr ''too short'']\<rparr>
     = scrape_fallback [Inr ''Tariffs bring back jobs for us'', Inr ''too short'']"
proof -
  have h: "scrape_tweets \<lparr>articles = [], text_nodes = [Inr ''Tariffs bring back jobs for us'', Inr ''too short'']\<rparr>
     = Inr [\<lparr>handle = ''@unknown'', body = ''Tariffs bring back jobs for us''\<rparr>]"
    by code_simp
  from fallback_mode [of "\<lparr>articles = [], text_nodes = [Inr ''Tariffs bring back jobs for us'', Inr ''too short'']\<rparr>"] h
  show ?thesis by simp
qed


subsection \<open>Faults\<close>

lemma collect_total:
  "\<forall>x \<in> set xs. \<exists>c. cand x = Inr c \<Longrightarrow> \<exists>cs. collect cand xs = Inr cs"
  by (induction xs) auto

lemma collect_mem:
  "collect cand xs = Inr cs \<Longrightarrow> x \<in> set xs \<Longrightarrow> cand x = Inr (Some c) \<Longrightarrow> c \<in> set cs"
  by (induction xs arbitrary: cs) (auto split: sum.splits option.splits)

lemma structured_candidate_total:
  "chunks art = Inr cs \<Longrightarrow> \<exists>c. structured_candidate art = Inr c"
  by (simp add: structured_candidate_def Let_def)

lemma handle_fault_emitted:
  assumes "articles pg \<noteq> []"
    and "\<forall>art \<in> set (take 180 (articles pg)). \<exists>cs. chunks art = Inr cs"
  shows "\<exists>tweets. scrape_tweets pg = Inr tweets
    \<and> (\<forall>art \<in> set (take 180 (articles pg)). \<forall>cs.
          chunks art = Inr cs \<and> cs \<noteq> [] \<and> 20 \<le> length (container_text cs) \<longrightarrow>
            (handle_fault art \<longrightarrow> extract_handle art = ''@unknown'')
            \<and> (\<exists>tw \<in> set tweets.
                  dedup_key tw = (extract_handle art, take 80 (container_text cs))))"
proof -
  let ?arts = "take 180 (articles pg)"
  have "\<forall>art \<in> set ?arts. \<exists>c. structured_candidate art = Inr c"
    using assms(2) structured_candidate_total by blast
  then obtain cands where c: "collect structured_candidate ?arts = Inr cands"
    using collect_total by blast
  then have cp: "candidates pg = Inr cands"
    using assms(1) by (simp add: candidates_def)
  let ?tweets = "firsts structured_key {} cands"
  have st: "scrape_tweets pg = Inr ?tweets"
    using cp assms(1) by (simp add: scrape_tweets_firsts)
  have emitted: "\<exists>tw \<in> set ?tweets.
      dedup_key tw = (extract_handle art, take 80 (container_text cs))"
    if art: "art \<in> set ?arts" and ch: "chunks art = Inr cs" "cs \<noteq> []"
      "20 \<le> length (container_text cs)" for art cs
  proof -
    let ?c = "\<lparr>handle = extract_handle art, body = container_text cs\<rparr>"
    have "structured_candidate art = Inr (Some ?c)"
      using ch by (simp add: structured_candidate_def Let_def)
    with c art have in_c: "?c \<in> set cands" by (rule collect_mem)
    then have "structured_key ?c \<in> structured_key ` set ?tweets"
      by (simp add: firsts_keys)
    then obtain tw where tw: "tw \<in> set ?tweets" "structured_key tw = structured_key ?c"
      by auto
    have "tw \<in> set cands"
      using tw(1) firsts_subset [of structured_key "{}" cands] by blast
    with tw(2) in_c have "dedup_key tw = dedup_key ?c"
      using candidates_key_iff [OF cp, of tw ?c] assms(1) by simp
    with tw(1) show ?thesis by (auto simp: dedup_key_def)
  qed
  show ?thesis
    using st emitted handle_fault_unknown by blast
qed

lemma fault_unique: "(e :: fault) = Fault"
  by (cases e)

lemma collect_fault:
  "x \<in> set xs \<Longrightarrow> cand x = Inl e \<Longrightarrow> collect cand xs = Inl Fault"
proof (induction xs)
  case Nil
  then show ?case by simp
next
  case (Cons y ys)
  show ?case
  proof (cases "cand y")
    case (Inl e0)
    then have "collect cand (y # ys) = Inl e0" by simp
    then show ?thesis using fault_unique [of e0] by simp
  next
    case (Inr c)
    with Cons.prems have "x \<in> set ys" by auto
    then have "collect cand ys = Inl Fault" using Cons.prems(2) by (rule Cons.IH)
    with Inr show ?thesis by simp
  qed
qed

lemma chunk_fault_uncaught:
  assumes "articles pg \<noteq> []"
    and "art \<in> set (take 180 (articles pg))" and "chunks art = Inl e"
  shows "\<exists>e'. scrape_tweets pg = Inl e'"
proof -
  have "structured_candidate art = Inl e"
    using assms(3) by (simp add: structured_candidate_def)
  with assms(2) have "collect structured_candidate (take 180 (articles pg)) = Inl Fault"
    by (rule collect_fault)
  then have "scrape_tweets pg = Inl Fault"
    using assms(1) by (simp add: scrape_tweets_firsts candidates_def)
  then show ?thesis by (rule exI)
qed

text \<open>
  Claim C2, as amended. In structured mode an exception raised while the author handle of a
  container is extracted is caught and does not skip the container: when the text
  fragments of each of the first 180 containers can be read, the pass returns, and every
  such container with a text of at least 20 characters is represented in the output by a
  post with its dedup key, the handle being \<open>"@unknown"\<close> when the handle extraction
  raised. When the text fragments of one of these containers cannot be read, the exception
  is not caught and the pass ends with it.
\<close>

theorem handle_fault_tolerated:
  assumes "articles pg \<noteq> []"
  shows "((\<forall>art \<in> set (take 180 (articles pg)). \<exists>cs. chunks art = Inr cs) \<longrightarrow>
      (\<exists>tweets. scrape_tweets pg = Inr tweets
        \<and> (\<forall>art \<in> set (take 180 (articles pg)). \<forall>cs.
              chunks art = Inr cs \<and> cs \<noteq> [] \<and> 20 \<le> length (container_text cs) \<longrightarrow>
                (handle_fault art \<longrightarrow> extract_handle art = ''@unknown'')
                \<and> (\<exists>tw \<in> set tweets.
                      dedup_key tw = (extract_handle art, take 80 (container_text cs))))))
   \<and> ((\<exists>art \<in> set (take 180 (articles pg)). \<exists>e. chunks art = Inl e) \<longrightarrow>
      (\<exists>e. scrape_tweets pg = Inl e))"
proof (intro conjI impI)
  assume "\<forall>art \<in> set (take 180 (articles pg)). \<exists>cs. chunks art = Inr cs"
  with assms show "\<exists>tweets. scrape_tweets pg = Inr tweets
        \<and> (\<forall>art \<in> set (take 180 (articles pg)). \<forall>cs.
              chunks art = Inr cs \<and> cs \<noteq> [] \<and> 20 \<le> length (container_text cs) \<longrightarrow>
                (handle_fault art \<longrightarrow> extract_handle art = ''@unknown'')
                \<and> (\<exists>tw \<in> set tweets.
                      dedup_key tw = (extract_handle art, take 80 (container_text cs))))"
    by (rule handle_fault_emitted)
next
  assume "\<exists>art \<in> set (take 180 (articles pg)). \<exists>e. chunks art = Inl e"
  then obtain art e where "art \<in> set (take 180 (articles pg))" and "chunks art = Inl e"
    by blast
  with assms show "\<exists>e. scrape_tweets pg = Inl e"
    by (rule chunk_fault_uncaught)
qed

theorem handle_fault_tolerated_witness:
  "handle_fault \<lparr>chunks = Inr [''Tariffs are a tax on consumers''], user_count = Inr 1,
       user_text = Inl Fault, art_text = Inr ''Bob @bob Tariffs are a tax on consumers''\<rparr>
   \<and> (\<exists>tweets. scrape_tweets
         \<lparr>articles = [\<lparr>chunks = Inr [''Tariffs are a tax on consumers''], user_count = Inr 1,
             user_text = Inl Fault, art_text = Inr ''Bob @bob Tariffs are a tax on consumers''\<rparr>],
          text_nodes = [Inr ''Tariffs are a tax on consumers'']\<rparr> = Inr tweets
        \<and> (\<exists>tw \<in> set tweets. dedup_key tw = (''@unknown'', ''Tariffs are a tax on consumers'')))
   \<and> (\<exists>e. scrape_tweets
         \<lparr>articles = [\<lparr>chunks = Inl Fault, user_count = Inr 1,
             user_text = Inr ''Ann @ann'', art_text = Inr ''Ann @ann''\<rparr>,
            \<lparr>chunks = Inr [''Tariffs bring back jobs for us''], user_count = Inr 1,
             user_text = Inr ''Bob @bob'', art_text = Inr ''Bob @bob Tariffs bring back jobs for us''\<rparr>],
          text_nodes = [Inr ''Tariffs bring back jobs for us'']\<rparr> = Inl e)"
proof -
  let ?art = "\<lparr>chunks = Inr [''Tariffs are a tax on consumers''], user_count = Inr 1,
       user_text = Inl Fault, art_text = Inr ''Bob @bob Tariffs are a tax on consumers''\<rparr>"
  let ?pg = "\<lparr>articles = [?art], text_nodes = [Inr ''Tariffs are a tax on consumers'']\<rparr>"
  have f: "handle_fault ?art" by code_simp
  have t: "container_text [''Tariffs are a tax on consumers''] = ''Tariffs are a tax on consumers''"
    by code_simp
  have h1: "articles ?pg \<noteq> []" by simp
  have h2: "\<forall>art \<in> set (take 180 (articles ?pg)). \<exists>cs. chunks art = Inr cs" by simp
  from handle_fault_tolerated [OF h1] h2 obtain tweets
    where st: "scrape_tweets ?pg = Inr tweets"
      and em: "\<forall>art \<in> set (take 180 (articles ?pg)). \<forall>cs.
          chunks art = Inr cs \<and> cs \<noteq> [] \<and> 20 \<le> length (container_text cs) \<longrightarrow>
            (handle_fault art \<longrightarrow> extract_handle art = ''@unknown'')
            \<and> (\<exists>tw \<in> set tweets.
                  dedup_key tw = (extract_handle art, take 80 (container_text cs)))"
    by blast
  have u: "extract_handle ?art = ''@unknown''" by code_simp
  from em t have "\<exists>tw \<in> set tweets. dedup_key tw = (extract_handle ?art, ''Tariffs are a tax on consumers'')"
    by simp
  then have "\<exists>tw \<in> set tweets. dedup_key tw = (''@unknown'', ''Tariffs are a tax on consumers'')"
    unfolding u .
  with f st have first: "handle_fault ?art
      \<and> (\<exists>tweets. scrape_tweets ?pg = Inr tweets
        \<and> (\<exists>tw \<in> set tweets. dedup_key tw = (''@unknown'', ''Tariffs are a tax on consumers'')))"
    by blast
  let ?pg2 = "\<lparr>articles = [\<lparr>chunks = Inl Fault, user_count = Inr 1,
             user_text = Inr ''Ann @ann'', art_text = Inr ''Ann @ann''\<rparr>,
            \<lparr>chunks = Inr [''Tariffs bring back jobs for us''], user_count = Inr 1,
             user_text = Inr ''Bob @bob'', art_text = Inr ''Bob @bob Tariffs bring back jobs for us''\<rparr>],
          text_nodes = [Inr ''Tariffs bring back jobs for us'']\<rparr>"
  have g1: "articles ?pg2 \<noteq> []" by simp
  have g2: "\<exists>art \<in> set (take 180 (articles ?pg2)). \<exists>e. chunks art = Inl e" by simp
  from handle_fault_tolerated [OF g1] g2 have "\<exists>e. scrape_tweets ?pg2 = Inl e"
    by blast
  with first show ?thesis by (intro conjI) blast+
qed

text \<open>
  Claim C2 as stated fails. The first page has one container whose \<open>User-Name\<close> block
  raises on \<open>inner_text()\<close>: the container is not skipped, its post is emitted with the
  handle \<open>"@unknown"\<close>. The second page has a first container whose text fragments cannot
  be read: the exception is not caught and the pass ends with it, although the second
  container is fine.
\<close>

theorem skip_on_error_counterexample:
  "handle_fault \<lparr>chunks = Inr [''Tariffs are a tax on consumers''], user_count = Inr 1,
       user_text = Inl Fault, art_text = Inr ''Bob @bob Tariffs are a tax on consumers''\<rparr>
   \<and> scrape_tweets
       \<lparr>articles = [\<lparr>chunks = Inr [''Tariffs are a tax on consumers''], user_count = Inr 1,
           user_text = Inl Fault, art_text = Inr ''Bob @bob Tariffs are a tax on consumers''\<rparr>],
        text_nodes = [Inr ''Tariffs are a tax on consumers'']\<rparr>
     = Inr [\<lparr>handle = ''@unknown'', body = ''Tariffs are a tax on consumers''\<rparr>]
   \<and> scrape_tweets
       \<lparr>articles = [\<lparr>chunks = Inl Fault, user_count = Inr 1,
           user_text = Inr ''Ann @ann'', art_text = Inr ''Ann @ann''\<rparr>,
          \<lparr>chunks = Inr [''Tariffs bring back jobs for us''], user_count = Inr 1,
           user_text = Inr ''Bob @bob'', art_text = Inr ''Bob @bob Tariffs bring back jobs for us''\<rparr>],
        text_nodes = [Inr ''Tariffs bring back jobs for us'']\<rparr>
     = Inl Fault"
  by code_simp

subsection \<open>The run\<close>

lemma empty_run:
  "classify_all sia [] = ([], \<lparr>positive = 0, negative = 0, neutral = 0\<rparr>)"
  "top_themes [] 2 = []"
  "summary_of \<lparr>positive = 0, negative = 0, neutral = 0\<rparr> [] =
     ''On #Tariffs, tweets skew mixed (0% negative, 0% positive, 100% neutral), with frequent mentions of mixed themes.''"
  by (simp add: classify_all_def, code_simp, code_simp)

text \<open>
  Claim C9. The run ends with the content-unavailable error iff the page that
  \<open>load_results\<close> leaves has no \<open>div[lang]\<close> element. When it has one and the extractor
  returns zero posts, the run completes: the CSV has the header row and no data row, and
  the report has a count of 0, all-zero counts and the summary sentence.
\<close>

theorem content_unavailable_iff:
  "(main br s sia ts = Inl ContentUnavailable
      \<longleftrightarrow> text_nodes (view br (load_results br s)) = [])
   \<and> (text_nodes (view br (load_results br s)) \<noteq> []
      \<and> scrape_tweets (view br (load_results br s)) = Inr []
      \<longrightarrow> main br s sia ts =
            Inr \<lparr>collected = 0,
                 summary = ''On #Tariffs, tweets skew mixed (0% negative, 0% positive, 100% neutral), with frequent mentions of mixed themes.'',
                 printed_counts = \<lparr>positive = 0, negative = 0, neutral = 0\<rparr>,
                 out = ''tariffs_tweets_'' @ ts @ ''.csv'',
                 rows = [[''handle'', ''text'', ''stance'']]\<rparr>)"
  by (auto simp: main_def Let_def empty_run split: sum.splits prod.splits)


theorem content_unavailable_iff_witness:
  "main \<lparr>goto = (\<lambda>url s. url), wait = (\<lambda>n s. s), press = (\<lambda>k s. s),
          view = (\<lambda>u. if u = ''https://mobile.twitter.com/search?q=%23Tariffs&src=typed_query&f=live''
                     then \<lparr>articles = [], text_nodes = [Inr ''too short'']\<rparr>
                     else \<lparr>articles = [], text_nodes = []\<rparr>)\<rparr>
       ''https://x.com/home'' (\<lambda>_. 0) ''20260101-000000''
     = Inr \<lparr>collected = 0,
             summary = ''On #Tariffs, tweets skew mixed (0% negative, 0% positive, 100% neutral), with frequent mentions of mixed themes.'',
             printed_counts = \<lparr>positive = 0, negative = 0, neutral = 0\<rparr>,
             out = ''tariffs_tweets_20260101-000000.csv'',
             rows = [[''handle'', ''text'', ''stance'']]\<rparr>
   \<and> main \<lparr>goto = (\<lambda>url s. url), wait = (\<lambda>n s. s), press = (\<lambda>k s. s),
          view = (\<lambda>u. \<lparr>articles = [], text_nodes = []\<rparr>)\<rparr>
       ''https://x.com/home'' (\<lambda>_. 0) ''20260101-000000''
     = Inl ContentUnavailable"
proof -
  let ?br = "\<lparr>goto = (\<lambda>url s. url), wait = (\<lambda>n s. s), press = (\<lambda>k s. s),
          view = (\<lambda>u. if u = ''https://mobile.twitter.com/search?q=%23Tariffs&src=typed_query&f=live''
                     then \<lparr>articles = [], text_nodes = [Inr ''too short'']\<rparr>
                     else \<lparr>articles = [], text_nodes = []\<rparr>)\<rparr>"
  let ?none = "\<lparr>goto = (\<lambda>url s. url), wait = (\<lambda>n s. s), press = (\<lambda>k s. s),
          view = (\<lambda>u. \<lparr>articles = [], text_nodes = []\<rparr>)\<rparr>"
  have v: "view ?br (load_results ?br ''https://x.com/home'')
      = \<lparr>articles = [], text_nodes = [Inr ''too short'']\<rparr>"
    by (simp add: load_results_def Let_def eval_nat_numeral)
  have a: "text_nodes (view ?br (load_results ?br ''https://x.com/home'')) \<noteq> []"
    unfolding v by simp
  have "scrape_tweets \<lparr>articles = [], text_nodes = [Inr ''too short'']\<rparr> = Inr []"
    by code_simp
  then have b: "scrape_tweets (view ?br (load_results ?br ''https://x.com/home'')) = Inr []"
    unfolding v .
  have c: "text_nodes (view ?none (load_results ?none ''https://x.com/home'')) = []"
    by simp
  from content_unavailable_iff [of ?br "''https://x.com/home''" "\<lambda>_. 0" "''20260101-000000''"]
    content_unavailable_iff [of ?none "''https://x.com/home''" "\<lambda>_. 0" "''20260101-000000''"]
    a b c
  show ?thesis by simp
qed



section \<open>Properties of the theme ranker\<close>

subsection \<open>The counts\<close>

lemma THEMES_distinct: "distinct (map fst THEMES)"
  by code_simp

lemma theme_index_names: "map theme_index (map fst THEMES) = [0, 1, 2, 3, 4, 5, 6]"
  by code_simp

lemma incr_map:
  "incr theme cs = map (\<lambda>(t, c). (t, c + (if t = theme then 1 else 0))) cs"
  by (auto simp: incr_def)

lemma fold_themes:
  assumes "distinct (map fst ths)"
  shows "fold (\<lambda>(theme, keys) cs. if any_in keys low then incr theme cs else cs) ths cs =
         map (\<lambda>(t, c). (t, c + (case map_of ths t of
                                   Some keys \<Rightarrow> if any_in keys low then 1 else 0
                                 | None \<Rightarrow> 0))) cs"
  using assms
proof (induction ths arbitrary: cs)
  case Nil
  then show ?case by simp
next
  case (Cons th ths)
  obtain n keys where th: "th = (n, keys)" by (cases th)
  from Cons.prems th have d: "distinct (map fst ths)" and n: "map_of ths n = None"
    by (auto simp: map_of_eq_None_iff)
  show ?case
    unfolding th using n
    by (auto simp: Cons.IH [OF d] incr_map)
qed

lemma count_text_map:
  "count_text tx cs =
     map (\<lambda>(t, c). (t, c + (case map_of THEMES t of
                               Some keys \<Rightarrow> if any_in keys (lower tx) then 1 else 0
                             | None \<Rightarrow> 0))) cs"
  unfolding count_text_def Let_def by (rule fold_themes [OF THEMES_distinct])

lemma match_count_snoc:
  "match_count keys (texts @ [tx]) =
     match_count keys texts + (if any_in keys (lower tx) then 1 else 0)"
  by (simp add: match_count_def)

lemma theme_counts_eq:
  "theme_counts texts = map (\<lambda>(n, keys). (n, match_count keys texts)) THEMES"
proof (induction texts rule: rev_induct)
  case Nil
  then show ?case by (simp add: theme_counts_def match_count_def)
next
  case (snoc tx texts)
  have "theme_counts (texts @ [tx]) = count_text tx (theme_counts texts)"
    by (simp add: theme_counts_def)
  also have "\<dots> = map (\<lambda>(n, keys). (n, match_count keys (texts @ [tx]))) THEMES"
    unfolding snoc.IH count_text_map map_map
  proof (rule map_cong [OF refl])
    fix th assume "th \<in> set THEMES"
    then have "map_of THEMES (fst th) = Some (snd th)"
      using THEMES_distinct by simp
    then show "((\<lambda>(t, c). (t, c + (case map_of THEMES t of
                               Some keys \<Rightarrow> if any_in keys (lower tx) then 1 else 0
                             | None \<Rightarrow> 0))) \<circ> (\<lambda>(n, keys). (n, match_count keys texts))) th
          = (case th of (n, keys) \<Rightarrow> (n, match_count keys (texts @ [tx])))"
      by (cases th) (simp add: match_count_snoc)
  qed
  finally show ?case .
qed

lemma theme_counts_keys: "map fst (theme_counts texts) = map fst THEMES"
  by (simp add: theme_counts_eq o_def split_def)

lemma theme_counts_entry:
  assumes "p \<in> set (theme_counts texts)"
  shows "fst p \<in> fst ` set THEMES \<and> snd p = theme_count texts (fst p)
         \<and> getitem (theme_counts texts) (fst p) = theme_count texts (fst p)"
proof -
  from assms obtain n keys where th: "(n, keys) \<in> set THEMES" and p: "p = (n, match_count keys texts)"
    by (auto simp: theme_counts_eq)
  have m: "map_of THEMES n = Some keys" using th THEMES_distinct by simp
  have "distinct (map fst (theme_counts texts))"
    by (simp add: theme_counts_keys THEMES_distinct)
  with assms p have "map_of (theme_counts texts) n = Some (match_count keys texts)" by simp
  with th p m show ?thesis
    by (force simp: theme_count_def getitem_def)
qed

subsection \<open>Stable descending sort\<close>

lemma insort_key_ranked:
  fixes f :: "'a \<Rightarrow> int" and r :: "'a \<Rightarrow> nat"
  assumes "sorted_wrt (\<lambda>p q. f q > f p \<or> (f q = f p \<and> r q < r p)) ys"
    and "\<forall>y \<in> set ys. r y < r a"
  shows "sorted_wrt (\<lambda>p q. f q > f p \<or> (f q = f p \<and> r q < r p)) (insort_key f a ys)"
  using assms
proof (induction ys)
  case Nil
  then show ?case by simp
next
  case (Cons y ys)
  show ?case
  proof (cases "f a \<le> f y")
    case True
    have "\<forall>z \<in> set (y # ys). f z > f a \<or> (f z = f a \<and> r z < r a)"
      using True Cons.prems by fastforce
    with True Cons.prems(1) show ?thesis by simp
  next
    case False
    with Cons show ?thesis by (auto simp: set_insort_key)
  qed
qed

lemma sorted_reverse_ranked:
  fixes f :: "'a \<Rightarrow> int" and r :: "'a \<Rightarrow> nat"
  assumes "sorted_wrt (\<lambda>a b. r a < r b) xs"
  shows "sorted_wrt (\<lambda>a b. f a > f b \<or> (f a = f b \<and> r a < r b)) (sorted_reverse f xs)"
  using assms
proof (induction xs rule: rev_induct)
  case Nil
  then show ?case by (simp add: sorted_reverse_def)
next
  case (snoc a xs)
  let ?R = "\<lambda>p q. f q > f p \<or> (f q = f p \<and> r q < r p)"
  from snoc.prems have xs: "sorted_wrt (\<lambda>a b. r a < r b) xs" and a: "\<forall>x \<in> set xs. r x < r a"
    by (auto simp: sorted_wrt_append)
  from snoc.IH [OF xs] have "sorted_wrt ?R (sort_key f (rev xs))"
    by (simp add: sorted_reverse_def sorted_wrt_rev)
  moreover have "\<forall>y \<in> set (sort_key f (rev xs)). r y < r a" using a by simp
  ultimately have "sorted_wrt ?R (insort_key f a (sort_key f (rev xs)))"
    by (rule insort_key_ranked)
  then show ?case
    by (simp add: sorted_reverse_def sorted_wrt_rev)
qed

lemma set_sorted_reverse: "set (sorted_reverse f xs) = set xs"
  by (simp add: sorted_reverse_def)

subsection \<open>The ranking\<close>

lemma ranked_themes_set:
  "set (ranked_themes texts) = {t \<in> fst ` set THEMES. theme_count texts t > 0}"
proof -
  let ?cs = "theme_counts texts"
  have "set (ranked_themes texts) = fst ` {p \<in> set ?cs. getitem ?cs (fst p) > 0}"
    by (auto simp: ranked_themes_def Let_def set_sorted_reverse split_def)
  also have "\<dots> = {t \<in> fst ` set ?cs. theme_count texts t > 0}"
    using theme_counts_entry [of _ texts] by force
  also have "fst ` set ?cs = fst ` set THEMES"
    using theme_counts_keys [of texts] by (metis set_map)
  finally show ?thesis .
qed

lemma ranked_themes_sorted: "sorted_wrt (ranks_before texts) (ranked_themes texts)"
proof -
  let ?cs = "theme_counts texts"
  let ?r = "\<lambda>p :: string \<times> int. theme_index (fst p)"
  let ?R = "\<lambda>a b :: string \<times> int. snd a > snd b \<or> (snd a = snd b \<and> ?r a < ?r b)"
  let ?ys = "filter (\<lambda>(t, _). getitem ?cs t > 0) (sorted_reverse snd ?cs)"
  have "map theme_index (map fst ?cs) = [0, 1, 2, 3, 4, 5, 6]"
    by (simp only: theme_counts_keys theme_index_names)
  then have "sorted_wrt (<) (map ?r ?cs)"
    by (simp add: o_def)
  then have "sorted_wrt (\<lambda>a b. ?r a < ?r b) ?cs"
    by (simp only: sorted_wrt_map)
  then have "sorted_wrt ?R (sorted_reverse snd ?cs)"
    by (rule sorted_reverse_ranked)
  then have s: "sorted_wrt ?R ?ys"
    by (rule sorted_wrt_filter)
  have sub: "set ?ys \<subseteq> set ?cs"
    by (auto simp: set_sorted_reverse)
  have "sorted_wrt (\<lambda>a b. ranks_before texts (fst a) (fst b)) ?ys"
  proof (rule sorted_wrt_mono_rel [OF _ s])
    fix a b assume "a \<in> set ?ys" "b \<in> set ?ys" and R: "?R a b"
    with sub have "a \<in> set ?cs" "b \<in> set ?cs" by blast+
    then have "snd a = theme_count texts (fst a)" "snd b = theme_count texts (fst b)"
      using theme_counts_entry by blast+
    with R show "ranks_before texts (fst a) (fst b)"
      by (simp add: ranks_before_def)
  qed
  then have "sorted_wrt (ranks_before texts) (map fst ?ys)"
    by (simp only: sorted_wrt_map)
  then show ?thesis
    by (simp only: ranked_themes_def Let_def)
qed

lemma slice_to_set: "set (slice_to k xs) \<subseteq> set xs"
  by (auto simp: slice_to_def dest: in_set_takeD)

lemma slice_to_sorted: "sorted_wrt R xs \<Longrightarrow> sorted_wrt R (slice_to k xs)"
  by (simp add: slice_to_def sorted_wrt_take)

lemma slice_to_length: "0 \<le> k \<Longrightarrow> int (length (slice_to k xs)) \<le> k"
  by (simp add: slice_to_def)

text \<open>
  Claim C4. \<open>k\<close> is the number of names asked for. For every list of texts and every such
  \<open>k\<close> (\<open>0 \<le> k\<close>), \<open>top_themes texts k\<close> has at most \<open>k\<close> names; it contains only themes
  of the table whose match count over the texts is positive, it is sorted by match count
  descending with ties in the declaration order of the table, and it is empty when every
  theme has match count zero. The last three hold whatever the value of \<open>k\<close>.
\<close>

theorem top_themes_ranking:
  "(0 \<le> k \<longrightarrow> int (length (top_themes texts k)) \<le> k)
   \<and> (\<forall>t \<in> set (top_themes texts k). t \<in> fst ` set THEMES \<and> theme_count texts t > 0)
   \<and> sorted_wrt (ranks_before texts) (top_themes texts k)
   \<and> ((\<forall>t \<in> fst ` set THEMES. theme_count texts t = 0) \<longrightarrow> top_themes texts k = [])"
proof -
  have sub: "set (top_themes texts k) \<subseteq> set (ranked_themes texts)"
    using slice_to_set [of k "ranked_themes texts"] by (auto simp: top_themes_def Let_def)
  have len: "0 \<le> k \<longrightarrow> int (length (top_themes texts k)) \<le> k"
    by (simp add: top_themes_def Let_def slice_to_length)
  have mem: "\<forall>t \<in> set (top_themes texts k). t \<in> fst ` set THEMES \<and> theme_count texts t > 0"
    using sub ranked_themes_set [of texts] by blast
  have srt: "sorted_wrt (ranks_before texts) (top_themes texts k)"
    using ranked_themes_sorted [of texts]
    by (simp add: top_themes_def Let_def slice_to_sorted)
  have emp: "(\<forall>t \<in> fst ` set THEMES. theme_count texts t = 0) \<longrightarrow> top_themes texts k = []"
  proof
    assume "\<forall>t \<in> fst ` set THEMES. theme_count texts t = 0"
    then have "set (ranked_themes texts) = {}"
      unfolding ranked_themes_set by auto
    then show "top_themes texts k = []"
      by (simp add: top_themes_def)
  qed
  from len mem srt emp show ?thesis by (intro conjI)
qed

theorem top_themes_ranking_witness:
  "top_themes [''Inflation is up because of China'', ''China retaliates'', ''prices, prices''] 2
     = [''inflation/prices'', ''china/geopolitics'']
   \<and> theme_count [''Inflation is up because of China'', ''China retaliates'', ''prices, prices'']
        ''inflation/prices'' = 2
   \<and> theme_count [''Inflation is up because of China'', ''China retaliates'', ''prices, prices'']
        ''china/geopolitics'' = 2
   \<and> ranks_before [''Inflation is up because of China'', ''China retaliates'', ''prices, prices'']
        ''inflation/prices'' ''china/geopolitics''"
proof -
  let ?texts = "[''Inflation is up because of China'', ''China retaliates'', ''prices, prices'']"
  have t: "top_themes ?texts 2 = [''inflation/prices'', ''china/geopolitics'']" by code_simp
  have c: "theme_count ?texts ''inflation/prices'' = 2" "theme_count ?texts ''china/geopolitics'' = 2"
    by code_simp+
  from top_themes_ranking [of 2 ?texts] have "sorted_wrt (ranks_before ?texts) (top_themes ?texts 2)"
    by blast
  then have "ranks_before ?texts ''inflation/prices'' ''china/geopolitics''"
    unfolding t by simp
  with t c show ?thesis by (intro conjI)
qed

end
